theory Spec2Isabelle
  imports Main
begin

section \<open>The CSS selector builder of \<^verbatim>\<open>05-objects-tasks.js\<close>\<close>

text \<open>
  The builder is a JavaScript class whose methods mutate \<^verbatim>\<open>this\<close> and return it, so
  objects live in a store and every method takes the store and returns it, next to its
  outcome. The values handed to the methods are strings, as the documentation of the
  module and the specification have them. A property that no assignment has run for
  reads as \<^verbatim>\<open>undefined\<close>: such a field is an optional string, \<open>None\<close> for
  \<^verbatim>\<open>undefined\<close>. Each constructor call makes its own three arrays and no method
  hands an array out or copies a reference to one, so the arrays are kept inside the
  object as lists.
\<close>

subsection \<open>Values, errors and objects\<close>

text \<open>
  JavaScript's test \<^verbatim>\<open>if (x)\<close> on a field: \<^verbatim>\<open>undefined\<close> and the empty string are
  falsy, every other string is truthy.
\<close>

fun truthy :: "string option \<Rightarrow> bool" where
  "truthy None = False"
| "truthy (Some s) = (s \<noteq> [])"

text \<open>The interpolation \<^verbatim>\<open>${x}\<close> of a template literal.\<close>

fun template :: "string option \<Rightarrow> string" where
  "template None = ''undefined''"
| "template (Some s) = s"

text \<open>\<^verbatim>\<open>throw new Error(message)\<close>: the two messages of the source tell the two errors apart.\<close>

datatype error = Error string

definition DuplicateError :: error where
  "DuplicateError =
     Error ''Element, id and pseudo-element should not occur more then one time inside the selector''"

definition OrderError :: error where
  "OrderError =
     Error ''Selector parts should be arranged in the following order: element, id, class, attribute, pseudo-class, pseudo-element''"

record CssSelector =
  cssElement :: "string option"
  cssId :: "string option"
  cssClasses :: "string list"
  cssAttribute :: "string list"
  cssPseudoClass :: "string list"
  cssPseudoElement :: "string option"

record CssCombine =
  cssString :: string

type_synonym addr = nat

text \<open>
  The store: the objects of either class by address, and the next address a constructor
  hands out. Addresses from \<open>next_addr\<close> on have not been handed out yet.
\<close>

record heap =
  selectors :: "addr \<Rightarrow> CssSelector"
  combines :: "addr \<Rightarrow> CssCombine"
  next_addr :: addr

text \<open>
  A reference to an object that has a \<^verbatim>\<open>stringify\<close> method, of one class or the
  other. The six builder methods exist in \<^verbatim>\<open>CssSelector\<close> only, so they take the
  address of a builder.
\<close>

datatype ref = SelectorRef addr | CombineRef addr

subsection \<open>Class \<^verbatim>\<open>CssSelector\<close>\<close>

text \<open>The constructor: three empty arrays, the other three properties not yet there.\<close>

definition CssSelector_init :: CssSelector where
  "CssSelector_init =
     \<lparr>cssElement = None, cssId = None, cssClasses = [], cssAttribute = [],
      cssPseudoClass = [], cssPseudoElement = None\<rparr>"

definition CssSelector_new :: "heap \<Rightarrow> addr \<times> heap" where
  "CssSelector_new h =
     (next_addr h,
      h\<lparr>selectors := (selectors h)(next_addr h := CssSelector_init),
        next_addr := Suc (next_addr h)\<rparr>)"

definition CssSelector_element :: "string \<Rightarrow> addr \<Rightarrow> heap \<Rightarrow> (error + addr) \<times> heap" where
  "CssSelector_element val this h =
     (let self = selectors h this in
      if truthy (cssElement self) then (Inl DuplicateError, h)
      else if truthy (cssId self) \<or> length (cssClasses self) \<noteq> 0
              \<or> length (cssAttribute self) \<noteq> 0 \<or> length (cssPseudoClass self) \<noteq> 0
              \<or> truthy (cssPseudoElement self)
           then (Inl OrderError, h)
      else (Inr this, h\<lparr>selectors := (selectors h)(this := self\<lparr>cssElement := Some val\<rparr>)\<rparr>))"

definition CssSelector_id :: "string \<Rightarrow> addr \<Rightarrow> heap \<Rightarrow> (error + addr) \<times> heap" where
  "CssSelector_id val this h =
     (let self = selectors h this in
      if truthy (cssId self) then (Inl DuplicateError, h)
      else if length (cssClasses self) \<noteq> 0 \<or> length (cssAttribute self) \<noteq> 0
              \<or> length (cssPseudoClass self) \<noteq> 0 \<or> truthy (cssPseudoElement self)
           then (Inl OrderError, h)
      else (Inr this, h\<lparr>selectors := (selectors h)(this := self\<lparr>cssId := Some val\<rparr>)\<rparr>))"

definition CssSelector_class :: "string \<Rightarrow> addr \<Rightarrow> heap \<Rightarrow> (error + addr) \<times> heap" where
  "CssSelector_class val this h =
     (let self = selectors h this in
      if length (cssAttribute self) \<noteq> 0 \<or> length (cssPseudoClass self) \<noteq> 0
         \<or> truthy (cssPseudoElement self)
      then (Inl OrderError, h)
      else (Inr this,
            h\<lparr>selectors := (selectors h)(this := self\<lparr>cssClasses := cssClasses self @ [val]\<rparr>)\<rparr>))"

definition CssSelector_attr :: "string \<Rightarrow> addr \<Rightarrow> heap \<Rightarrow> (error + addr) \<times> heap" where
  "CssSelector_attr val this h =
     (let self = selectors h this in
      if length (cssPseudoClass self) \<noteq> 0 \<or> truthy (cssPseudoElement self)
      then (Inl OrderError, h)
      else (Inr this,
            h\<lparr>selectors := (selectors h)(this := self\<lparr>cssAttribute := cssAttribute self @ [val]\<rparr>)\<rparr>))"

definition CssSelector_pseudoClass :: "string \<Rightarrow> addr \<Rightarrow> heap \<Rightarrow> (error + addr) \<times> heap" where
  "CssSelector_pseudoClass val this h =
     (let self = selectors h this in
      if truthy (cssPseudoElement self) then (Inl OrderError, h)
      else (Inr this,
            h\<lparr>selectors :=
                (selectors h)(this := self\<lparr>cssPseudoClass := cssPseudoClass self @ [val]\<rparr>)\<rparr>))"

definition CssSelector_pseudoElement :: "string \<Rightarrow> addr \<Rightarrow> heap \<Rightarrow> (error + addr) \<times> heap" where
  "CssSelector_pseudoElement val this h =
     (let self = selectors h this in
      if truthy (cssPseudoElement self) then (Inl DuplicateError, h)
      else (Inr this,
            h\<lparr>selectors := (selectors h)(this := self\<lparr>cssPseudoElement := Some val\<rparr>)\<rparr>))"

text \<open>
  \<^verbatim>\<open>stringify\<close>: the local \<^verbatim>\<open>string\<close> grows step by step; each \<^verbatim>\<open>forEach\<close> is a
  fold from the left. An array is truthy even when empty, so the three guards
  \<^verbatim>\<open>if (this.cssClasses)\<close>, \<^verbatim>\<open>if (this.cssAttribute)\<close> and
  \<^verbatim>\<open>if (this.cssPseudoClass)\<close> always pass.
\<close>

definition CssSelector_stringify :: "addr \<Rightarrow> heap \<Rightarrow> string \<times> heap" where
  "CssSelector_stringify this h =
     (let self = selectors h this;
          string0 = [];
          string1 = (if truthy (cssElement self) then string0 @ template (cssElement self)
                     else string0);
          string2 = (if truthy (cssId self) then string1 @ ''#'' @ template (cssId self)
                     else string1);
          string3 = foldl (\<lambda>string e. string @ ''.'' @ e) string2 (cssClasses self);
          string4 = foldl (\<lambda>string e. string @ ''['' @ e @ '']'') string3 (cssAttribute self);
          string5 = foldl (\<lambda>string e. string @ '':'' @ e) string4 (cssPseudoClass self);
          string6 = (if truthy (cssPseudoElement self)
                     then string5 @ ''::'' @ template (cssPseudoElement self)
                     else string5)
      in (string6, h))"

subsection \<open>Class \<^verbatim>\<open>CssCombine\<close>\<close>

definition CssCombine_new :: "string \<Rightarrow> string \<Rightarrow> string \<Rightarrow> heap \<Rightarrow> addr \<times> heap" where
  "CssCombine_new string1 combinator string2 h =
     (next_addr h,
      h\<lparr>combines :=
          (combines h)(next_addr h := \<lparr>cssString = string1 @ '' '' @ combinator @ '' '' @ string2\<rparr>),
        next_addr := Suc (next_addr h)\<rparr>)"

definition CssCombine_stringify :: "addr \<Rightarrow> heap \<Rightarrow> string \<times> heap" where
  "CssCombine_stringify this h = (cssString (combines h this), h)"

text \<open>The call \<^verbatim>\<open>selector.stringify()\<close> goes to the method of the object's class.\<close>

fun stringify :: "ref \<Rightarrow> heap \<Rightarrow> string \<times> heap" where
  "stringify (SelectorRef a) h = CssSelector_stringify a h"
| "stringify (CombineRef a) h = CssCombine_stringify a h"

subsection \<open>The facade \<^verbatim>\<open>cssSelectorBuilder\<close>\<close>

definition cssSelectorBuilder_element :: "string \<Rightarrow> heap \<Rightarrow> (error + addr) \<times> heap" where
  "cssSelectorBuilder_element val h = (let (t, h1) = CssSelector_new h in CssSelector_element val t h1)"

definition cssSelectorBuilder_id :: "string \<Rightarrow> heap \<Rightarrow> (error + addr) \<times> heap" where
  "cssSelectorBuilder_id val h = (let (t, h1) = CssSelector_new h in CssSelector_id val t h1)"

definition cssSelectorBuilder_class :: "string \<Rightarrow> heap \<Rightarrow> (error + addr) \<times> heap" where
  "cssSelectorBuilder_class val h = (let (t, h1) = CssSelector_new h in CssSelector_class val t h1)"

definition cssSelectorBuilder_attr :: "string \<Rightarrow> heap \<Rightarrow> (error + addr) \<times> heap" where
  "cssSelectorBuilder_attr val h = (let (t, h1) = CssSelector_new h in CssSelector_attr val t h1)"

definition cssSelectorBuilder_pseudoClass :: "string \<Rightarrow> heap \<Rightarrow> (error + addr) \<times> heap" where
  "cssSelectorBuilder_pseudoClass val h =
     (let (t, h1) = CssSelector_new h in CssSelector_pseudoClass val t h1)"

definition cssSelectorBuilder_pseudoElement :: "string \<Rightarrow> heap \<Rightarrow> (error + addr) \<times> heap" where
  "cssSelectorBuilder_pseudoElement val h =
     (let (t, h1) = CssSelector_new h in CssSelector_pseudoElement val t h1)"

text \<open>
  \<^verbatim>\<open>combine\<close>: the arguments of \<^verbatim>\<open>new CssCombine(...)\<close> are evaluated from left to
  right, then the constructor runs.
\<close>

definition cssSelectorBuilder_combine :: "ref \<Rightarrow> string \<Rightarrow> ref \<Rightarrow> heap \<Rightarrow> ref \<times> heap" where
  "cssSelectorBuilder_combine selector1 combinator selector2 h =
     (let (string1, h1) = stringify selector1 h;
          (string2, h2) = stringify selector2 h1;
          (a, h3) = CssCombine_new string1 combinator string2 h2
      in (CombineRef a, h3))"

subsection \<open>Calls by name, chains of calls, client programs\<close>

text \<open>The six categories in their order; each names the builder method that adds to it.\<close>

datatype category = Element | Id | Class | Attr | PseudoClass | PseudoElement

fun invoke :: "category \<Rightarrow> string \<Rightarrow> addr \<Rightarrow> heap \<Rightarrow> (error + addr) \<times> heap" where
  "invoke Element = CssSelector_element"
| "invoke Id = CssSelector_id"
| "invoke Class = CssSelector_class"
| "invoke Attr = CssSelector_attr"
| "invoke PseudoClass = CssSelector_pseudoClass"
| "invoke PseudoElement = CssSelector_pseudoElement"

fun factory :: "category \<Rightarrow> string \<Rightarrow> heap \<Rightarrow> (error + addr) \<times> heap" where
  "factory Element = cssSelectorBuilder_element"
| "factory Id = cssSelectorBuilder_id"
| "factory Class = cssSelectorBuilder_class"
| "factory Attr = cssSelectorBuilder_attr"
| "factory PseudoClass = cssSelectorBuilder_pseudoClass"
| "factory PseudoElement = cssSelectorBuilder_pseudoElement"

text \<open>
  The chained expression \<^verbatim>\<open>b.m1(v1).m2(v2)...\<close>: each call goes to the object the call
  before returned, and the first exception ends the chain and reaches the caller.
\<close>

fun chain :: "(category \<times> string) list \<Rightarrow> addr \<Rightarrow> heap \<Rightarrow> (error + addr) \<times> heap" where
  "chain [] this h = (Inr this, h)"
| "chain ((m, v) # cs) this h =
     (case invoke m v this h of
        (Inl e, h1) \<Rightarrow> (Inl e, h1)
      | (Inr r, h1) \<Rightarrow> chain cs r h1)"

text \<open>
  What a client can do with the store through the module: call a method of a builder,
  stringify an object, call a factory of the facade, combine two objects. A client that
  catches an exception goes on with the store the call left.
\<close>

datatype action =
    Invoke category string addr
  | Stringify ref
  | Factory category string
  | Combine ref string ref

fun perform :: "action \<Rightarrow> heap \<Rightarrow> heap" where
  "perform (Invoke m v a) h = snd (invoke m v a h)"
| "perform (Stringify r) h = snd (stringify r h)"
| "perform (Factory m v) h = snd (factory m v h)"
| "perform (Combine l c r) h = snd (cssSelectorBuilder_combine l c r h)"

definition performs :: "action list \<Rightarrow> heap \<Rightarrow> heap" where
  "performs acts h = foldl (\<lambda>h1 act. perform act h1) h acts"

text \<open>A store in which no constructor has run yet.\<close>

definition heap_init :: heap where
  "heap_init =
     \<lparr>selectors = (\<lambda>_. CssSelector_init), combines = (\<lambda>_. \<lparr>cssString = []\<rparr>), next_addr = 0\<rparr>"


subsection \<open>The vocabulary of the specification\<close>

text \<open>
  The singleton categories take one value; the others collect values in a list.
\<close>

fun singleton :: "category \<Rightarrow> bool" where
  "singleton Element = True"
| "singleton Id = True"
| "singleton Class = False"
| "singleton Attr = False"
| "singleton PseudoClass = False"
| "singleton PseudoElement = True"

text \<open>
  A category is populated when the test the methods apply to it passes: a truthy value
  for a singleton, a length other than zero for a list.
\<close>

fun populated :: "category \<Rightarrow> CssSelector \<Rightarrow> bool" where
  "populated Element s = truthy (cssElement s)"
| "populated Id s = truthy (cssId s)"
| "populated Class s = (cssClasses s \<noteq> [])"
| "populated Attr s = (cssAttribute s \<noteq> [])"
| "populated PseudoClass s = (cssPseudoClass s \<noteq> [])"
| "populated PseudoElement s = truthy (cssPseudoElement s)"

text \<open>Some category strictly after the one of the method is populated.\<close>

fun later_populated :: "category \<Rightarrow> CssSelector \<Rightarrow> bool" where
  "later_populated Element s =
     (populated Id s \<or> populated Class s \<or> populated Attr s \<or> populated PseudoClass s
      \<or> populated PseudoElement s)"
| "later_populated Id s =
     (populated Class s \<or> populated Attr s \<or> populated PseudoClass s
      \<or> populated PseudoElement s)"
| "later_populated Class s =
     (populated Attr s \<or> populated PseudoClass s \<or> populated PseudoElement s)"
| "later_populated Attr s = (populated PseudoClass s \<or> populated PseudoElement s)"
| "later_populated PseudoClass s = populated PseudoElement s"
| "later_populated PseudoElement s = False"

text \<open>The assignment or \<^verbatim>\<open>push\<close> a method does when it passes its checks.\<close>

fun store :: "category \<Rightarrow> string \<Rightarrow> CssSelector \<Rightarrow> CssSelector" where
  "store Element v s = s\<lparr>cssElement := Some v\<rparr>"
| "store Id v s = s\<lparr>cssId := Some v\<rparr>"
| "store Class v s = s\<lparr>cssClasses := cssClasses s @ [v]\<rparr>"
| "store Attr v s = s\<lparr>cssAttribute := cssAttribute s @ [v]\<rparr>"
| "store PseudoClass v s = s\<lparr>cssPseudoClass := cssPseudoClass s @ [v]\<rparr>"
| "store PseudoElement v s = s\<lparr>cssPseudoElement := Some v\<rparr>"

definition put :: "addr \<Rightarrow> CssSelector \<Rightarrow> heap \<Rightarrow> heap" where
  "put a s h = h\<lparr>selectors := (selectors h)(a := s)\<rparr>"

text \<open>A builder that holds one fragment and nothing else.\<close>

fun only :: "category \<Rightarrow> string \<Rightarrow> CssSelector" where
  "only Element v =
     \<lparr>cssElement = Some v, cssId = None, cssClasses = [], cssAttribute = [],
      cssPseudoClass = [], cssPseudoElement = None\<rparr>"
| "only Id v =
     \<lparr>cssElement = None, cssId = Some v, cssClasses = [], cssAttribute = [],
      cssPseudoClass = [], cssPseudoElement = None\<rparr>"
| "only Class v =
     \<lparr>cssElement = None, cssId = None, cssClasses = [v], cssAttribute = [],
      cssPseudoClass = [], cssPseudoElement = None\<rparr>"
| "only Attr v =
     \<lparr>cssElement = None, cssId = None, cssClasses = [], cssAttribute = [v],
      cssPseudoClass = [], cssPseudoElement = None\<rparr>"
| "only PseudoClass v =
     \<lparr>cssElement = None, cssId = None, cssClasses = [], cssAttribute = [],
      cssPseudoClass = [v], cssPseudoElement = None\<rparr>"
| "only PseudoElement v =
     \<lparr>cssElement = None, cssId = None, cssClasses = [], cssAttribute = [],
      cssPseudoClass = [], cssPseudoElement = Some v\<rparr>"

text \<open>
  The rendering the specification describes, from the calls made on a builder: the
  fragment of a call is its value behind the marker of its category, and the fragments
  are put together category by category in the fixed order, within a category in the
  order of the calls.
\<close>

fun fragment :: "category \<Rightarrow> string \<Rightarrow> string" where
  "fragment Element v = v"
| "fragment Id v = ''#'' @ v"
| "fragment Class v = ''.'' @ v"
| "fragment Attr v = ''['' @ v @ '']''"
| "fragment PseudoClass v = '':'' @ v"
| "fragment PseudoElement v = ''::'' @ v"

definition fragments_of :: "category \<Rightarrow> (category \<times> string) list \<Rightarrow> string" where
  "fragments_of k cs = concat (map (\<lambda>(m, v). fragment m v) (filter (\<lambda>(m, v). m = k) cs))"

definition spec_render :: "(category \<times> string) list \<Rightarrow> string" where
  "spec_render cs =
     fragments_of Element cs @ fragments_of Id cs @ fragments_of Class cs
       @ fragments_of Attr cs @ fragments_of PseudoClass cs @ fragments_of PseudoElement cs"

text \<open>The position of a category in the order, and a call sequence that respects it.\<close>

fun rank :: "category \<Rightarrow> nat" where
  "rank Element = 0"
| "rank Id = 1"
| "rank Class = 2"
| "rank Attr = 3"
| "rank PseudoClass = 4"
| "rank PseudoElement = 5"

definition in_category_order :: "(category \<times> string) list \<Rightarrow> bool" where
  "in_category_order cs = sorted (map (\<lambda>(m, v). rank m) cs)"

text \<open>
  The calls that give a category a value the builder counts as present: all but the calls
  that give a singleton category the empty string.
\<close>

definition given :: "(category \<times> string) list \<Rightarrow> (category \<times> string) list" where
  "given cs = filter (\<lambda>(m, v). \<not> (singleton m \<and> v = [])) cs"

text \<open>What \<^verbatim>\<open>stringify\<close> appends for one category of a builder.\<close>

fun part :: "category \<Rightarrow> CssSelector \<Rightarrow> string" where
  "part Element s = (if truthy (cssElement s) then template (cssElement s) else [])"
| "part Id s = (if truthy (cssId s) then ''#'' @ template (cssId s) else [])"
| "part Class s = concat (map (\<lambda>e. ''.'' @ e) (cssClasses s))"
| "part Attr s = concat (map (\<lambda>e. ''['' @ e @ '']'') (cssAttribute s))"
| "part PseudoClass s = concat (map (\<lambda>e. '':'' @ e) (cssPseudoClass s))"
| "part PseudoElement s =
     (if truthy (cssPseudoElement s) then ''::'' @ template (cssPseudoElement s) else [])"

section \<open>Properties\<close>

subsection \<open>What a method call does\<close>

lemmas method_defs =
  CssSelector_element_def CssSelector_id_def CssSelector_class_def CssSelector_attr_def
  CssSelector_pseudoClass_def CssSelector_pseudoElement_def

lemmas facade_defs =
  cssSelectorBuilder_element_def cssSelectorBuilder_id_def cssSelectorBuilder_class_def
  cssSelectorBuilder_attr_def cssSelectorBuilder_pseudoClass_def
  cssSelectorBuilder_pseudoElement_def

lemmas run_defs =
  method_defs facade_defs CssSelector_new_def CssSelector_init_def heap_init_def
  CssSelector_stringify_def CssCombine_new_def CssCombine_stringify_def
  cssSelectorBuilder_combine_def put_def Let_def

lemma errors_differ: "DuplicateError \<noteq> OrderError"
  by (simp add: DuplicateError_def OrderError_def)

lemma invoke_eq:
  "invoke m v this h =
     (if singleton m \<and> populated m (selectors h this) then (Inl DuplicateError, h)
      else if later_populated m (selectors h this) then (Inl OrderError, h)
      else (Inr this, put this (store m v (selectors h this)) h))"
  by (cases m) (simp_all add: method_defs Let_def put_def)

lemma invoke_Inr:
  assumes "invoke m v this h = (Inr r, h1)"
  shows "r = this" and "h1 = put this (store m v (selectors h this)) h"
    and "\<not> (singleton m \<and> populated m (selectors h this))"
    and "\<not> later_populated m (selectors h this)"
  using assms by (auto simp: invoke_eq split: if_splits)

lemma invoke_Inl:
  assumes "invoke m v this h = (Inl e, h1)"
  shows "h1 = h" and "e = DuplicateError \<or> e = OrderError"
  using assms by (auto simp: invoke_eq split: if_splits)

lemma populated_store:
  "populated k s \<Longrightarrow> \<not> (singleton m \<and> populated m s) \<Longrightarrow> populated k (store m v s)"
  by (cases m; cases k) auto

lemma populated_invoke:
  assumes "populated k (selectors h this)" and "invoke m v this h = (Inr r, h1)"
  shows "populated k (selectors h1 r)"
proof -
  from invoke_Inr [OF assms(2)]
  have "r = this" and "h1 = put this (store m v (selectors h this)) h"
    and "\<not> (singleton m \<and> populated m (selectors h this))"
    by blast+
  with assms(1) show ?thesis
    by (simp add: put_def populated_store)
qed

lemma chain_Inr_addr: "chain cs this h = (Inr r, h1) \<Longrightarrow> r = this"
proof (induction cs arbitrary: this h)
  case Nil
  then show ?case by simp
next
  case (Cons c cs)
  obtain m v where c: "c = (m, v)" by (cases c)
  obtain out h' where step: "invoke m v this h = (out, h')" by (cases "invoke m v this h")
  show ?case
  proof (cases out)
    case (Inl e)
    with Cons.prems c step show ?thesis by simp
  next
    case (Inr a)
    with step have "a = this" by (metis invoke_Inr(1))
    with Cons.prems c step Inr have "chain cs this h' = (Inr r, h1)" by simp
    then show ?thesis by (rule Cons.IH)
  qed
qed

lemma populated_chain:
  "populated k (selectors h this) \<Longrightarrow> chain cs this h = (Inr r, h1)
   \<Longrightarrow> populated k (selectors h1 r)"
proof (induction cs arbitrary: this h)
  case Nil
  then show ?case by simp
next
  case (Cons c cs)
  obtain m v where c: "c = (m, v)" by (cases c)
  obtain out h' where step: "invoke m v this h = (out, h')" by (cases "invoke m v this h")
  show ?case
  proof (cases out)
    case (Inl e)
    with Cons.prems c step show ?thesis by simp
  next
    case (Inr a)
    with step Cons.prems(1) have "populated k (selectors h' a)"
      by (metis populated_invoke)
    moreover from Cons.prems(2) c step Inr have "chain cs a h' = (Inr r, h1)" by simp
    ultimately show ?thesis by (rule Cons.IH)
  qed
qed


subsection \<open>Errors\<close>

text \<open>
  C4. A call that raises leaves the store as it was before the call, the error is one
  of the two errors of the builder, and a chain of calls that starts with the failing
  call hands that same error to its caller, with the store unchanged.
\<close>

theorem error_leaves_state_unchanged:
  assumes "invoke m v this h = (Inl e, h1)"
  shows "h1 = h \<and> (e = DuplicateError \<or> e = OrderError)
         \<and> chain ((m, v) # cs) this h = (Inl e, h)"
proof -
  from invoke_Inl [OF assms] have "h1 = h" and "e = DuplicateError \<or> e = OrderError"
    by blast+
  moreover from assms \<open>h1 = h\<close> have "chain ((m, v) # cs) this h = (Inl e, h)"
    by simp
  ultimately show ?thesis by blast
qed

theorem error_leaves_state_unchanged_witness:
  "invoke Id ''b'' 0 (snd (factory Id ''a'' heap_init))
     = (Inl DuplicateError, snd (factory Id ''a'' heap_init))
   \<and> chain [(Id, ''b''), (Class, ''c'')] 0 (snd (factory Id ''a'' heap_init))
     = (Inl DuplicateError, snd (factory Id ''a'' heap_init))"
proof -
  have call: "invoke Id ''b'' 0 (snd (factory Id ''a'' heap_init))
                = (Inl DuplicateError, snd (factory Id ''a'' heap_init))"
    by (simp add: run_defs)
  from error_leaves_state_unchanged [OF call, of "[(Class, ''c'')]"] call
  show ?thesis by blast
qed

text \<open>
  C10. When an \<^verbatim>\<open>element\<close> or \<^verbatim>\<open>id\<close> call breaks both rules, its own category
  holding a truthy value and a later category being populated, the error is the
  duplicate error and not the order error.
\<close>

theorem duplicate_check_runs_first:
  assumes "m = Element \<or> m = Id"
    and "populated m (selectors h this)"
    and "later_populated m (selectors h this)"
  shows "invoke m v this h = (Inl DuplicateError, h)
         \<and> fst (invoke m v this h) \<noteq> Inl OrderError"
proof -
  from assms(1) have "singleton m" by auto
  with assms(2) have "invoke m v this h = (Inl DuplicateError, h)"
    by (simp add: invoke_eq)
  then show ?thesis by (simp add: errors_differ)
qed

theorem duplicate_check_runs_first_witness:
  "populated Element (selectors (snd (chain [(Class, ''a'')] 0 (snd (factory Element ''div'' heap_init)))) 0)
   \<and> later_populated Element (selectors (snd (chain [(Class, ''a'')] 0 (snd (factory Element ''div'' heap_init)))) 0)
   \<and> invoke Element ''p'' 0 (snd (chain [(Class, ''a'')] 0 (snd (factory Element ''div'' heap_init))))
       = (Inl DuplicateError, snd (chain [(Class, ''a'')] 0 (snd (factory Element ''div'' heap_init))))"
proof -
  let ?h = "snd (chain [(Class, ''a'')] 0 (snd (factory Element ''div'' heap_init)))"
  have p: "populated Element (selectors ?h 0)" by (simp add: run_defs)
  have l: "later_populated Element (selectors ?h 0)" by (simp add: run_defs)
  from duplicate_check_runs_first [OF _ p l, of "''p''"] p l show ?thesis by blast
qed


text \<open>
  C2, as amended. A call for a category while a strictly later category is populated
  raises: the order error, unless the call is \<^verbatim>\<open>element\<close> or \<^verbatim>\<open>id\<close> and its own
  category already holds a truthy value, where the duplicate check comes first and the
  duplicate error is raised. In particular, once a \<^verbatim>\<open>class\<close> call has succeeded on a
  builder, every later \<^verbatim>\<open>element\<close> call on it raises one of the two errors in this
  way.
\<close>

theorem order_error_when_later_populated:
  "(later_populated m (selectors h this) \<longrightarrow>
      invoke m v this h =
        (Inl (if singleton m \<and> populated m (selectors h this) then DuplicateError
              else OrderError), h))
   \<and> (invoke Class c this h = (Inr r, h1) \<and> chain cs r h1 = (Inr r', h2) \<longrightarrow>
      invoke Element v r' h2 =
        (Inl (if populated Element (selectors h2 r') then DuplicateError else OrderError), h2))"
proof (intro conjI impI)
  assume "later_populated m (selectors h this)"
  then show "invoke m v this h =
      (Inl (if singleton m \<and> populated m (selectors h this) then DuplicateError
            else OrderError), h)"
    by (simp add: invoke_eq)
next
  assume a: "invoke Class c this h = (Inr r, h1) \<and> chain cs r h1 = (Inr r', h2)"
  from a invoke_Inr(1,2) [of Class c this h r h1]
  have "r = this" and "h1 = put this (store Class c (selectors h this)) h" by blast+
  then have "populated Class (selectors h1 r)" by (simp add: put_def)
  with a have "populated Class (selectors h2 r')" by (blast intro: populated_chain)
  then have "later_populated Element (selectors h2 r')" by simp
  then show "invoke Element v r' h2 =
      (Inl (if populated Element (selectors h2 r') then DuplicateError else OrderError), h2)"
    by (simp add: invoke_eq del: invoke.simps)
qed

theorem order_error_when_later_populated_witness:
  "later_populated Class (selectors (snd (factory Attr ''href'' heap_init)) 0)
   \<and> invoke Class ''c'' 0 (snd (factory Attr ''href'' heap_init))
       = (Inl OrderError, snd (factory Attr ''href'' heap_init))
   \<and> invoke Class ''c'' 0 (snd (factory Id ''main'' heap_init))
       = (Inr 0, snd (chain [(Class, ''c'')] 0 (snd (factory Id ''main'' heap_init))))
   \<and> chain [(Attr, ''x'')] 0 (snd (chain [(Class, ''c'')] 0 (snd (factory Id ''main'' heap_init))))
       = (Inr 0, snd (chain [(Class, ''c''), (Attr, ''x'')] 0 (snd (factory Id ''main'' heap_init))))
   \<and> invoke Element ''div'' 0
         (snd (chain [(Class, ''c''), (Attr, ''x'')] 0 (snd (factory Id ''main'' heap_init))))
       = (Inl OrderError,
          snd (chain [(Class, ''c''), (Attr, ''x'')] 0 (snd (factory Id ''main'' heap_init))))"
proof -
  let ?h = "snd (factory Attr ''href'' heap_init)"
  let ?g = "snd (factory Id ''main'' heap_init)"
  let ?g1 = "snd (chain [(Class, ''c'')] 0 ?g)"
  let ?g2 = "snd (chain [(Class, ''c''), (Attr, ''x'')] 0 ?g)"
  have l: "later_populated Class (selectors ?h 0)" by (simp add: run_defs)
  have s: "\<not> (singleton Class \<and> populated Class (selectors ?h 0))" by simp
  have c1: "invoke Class ''c'' 0 ?g = (Inr 0, ?g1)" by (simp add: run_defs)
  have c2: "chain [(Attr, ''x'')] 0 ?g1 = (Inr 0, ?g2)" by (simp add: run_defs)
  have e: "\<not> populated Element (selectors ?g2 0)" by (simp add: run_defs)
  from order_error_when_later_populated
         [where m = Class and h = ?h and this = 0 and v = "''c''"]
  have first: "invoke Class ''c'' 0 ?h = (Inl OrderError, ?h)"
    using l s by simp
  from order_error_when_later_populated
         [where c = "''c''" and h = ?g and this = 0 and r = 0 and ?h1.0 = ?g1
            and cs = "[(Attr, ''x'')]" and r' = 0 and ?h2.0 = ?g2 and v = "''div''"]
  have second: "invoke Element ''div'' 0 ?g2 = (Inl OrderError, ?g2)"
    using c1 c2 e by simp
  from l first c1 c2 second
  show ?thesis by blast
qed

text \<open>
  The claim as it is stated fails: after \<^verbatim>\<open>element('div').class('a')\<close> the class
  list is populated, and \<^verbatim>\<open>element('p')\<close> raises the duplicate error, not the order
  error.
\<close>

theorem element_after_class_counterexample:
  "fst (factory Element ''div'' heap_init) = Inr 0
   \<and> fst (chain [(Class, ''a'')] 0 (snd (factory Element ''div'' heap_init))) = Inr 0
   \<and> later_populated Element
        (selectors (snd (chain [(Class, ''a'')] 0 (snd (factory Element ''div'' heap_init)))) 0)
   \<and> fst (invoke Element ''p'' 0
             (snd (chain [(Class, ''a'')] 0 (snd (factory Element ''div'' heap_init)))))
       \<noteq> Inl OrderError"
  by (simp add: run_defs DuplicateError_def OrderError_def)


text \<open>
  C3, as amended. Once a singleton category (\<^verbatim>\<open>element\<close>, \<^verbatim>\<open>id\<close>,
  \<^verbatim>\<open>pseudoElement\<close>) has been given a value other than the empty string, every
  further call for that category on the same builder raises the duplicate error, whatever
  the new value and whatever successful calls came in between, and leaves the store as it
  was.
\<close>

theorem second_value_raises_duplicate_error:
  assumes "singleton m" and "v1 \<noteq> []"
    and "invoke m v1 this h = (Inr r, h1)"
    and "chain cs r h1 = (Inr r', h2)"
  shows "invoke m v2 r' h2 = (Inl DuplicateError, h2)"
proof -
  from invoke_Inr(1,2) [OF assms(3)]
  have "r = this" and "h1 = put this (store m v1 (selectors h this)) h" by blast+
  then have "selectors h1 r = store m v1 (selectors h this)" by (simp add: put_def)
  with assms(1,2) have "populated m (selectors h1 r)" by (cases m) simp_all
  with assms(4) have "populated m (selectors h2 r')" by (blast intro: populated_chain)
  with assms(1) show ?thesis by (simp add: invoke_eq del: invoke.simps)
qed

theorem second_value_raises_duplicate_error_witness:
  "singleton Id \<and> ''main'' \<noteq> []
   \<and> invoke Id ''main'' 0 (snd (CssSelector_new heap_init))
       = (Inr 0, snd (factory Id ''main'' heap_init))
   \<and> chain [(Class, ''c'')] 0 (snd (factory Id ''main'' heap_init))
       = (Inr 0, snd (chain [(Class, ''c'')] 0 (snd (factory Id ''main'' heap_init))))
   \<and> invoke Id ''other'' 0 (snd (chain [(Class, ''c'')] 0 (snd (factory Id ''main'' heap_init))))
       = (Inl DuplicateError, snd (chain [(Class, ''c'')] 0 (snd (factory Id ''main'' heap_init))))"
proof -
  let ?h0 = "snd (CssSelector_new heap_init)"
  let ?h1 = "snd (factory Id ''main'' heap_init)"
  let ?h2 = "snd (chain [(Class, ''c'')] 0 ?h1)"
  have s: "singleton Id" by simp
  have v: "''main'' \<noteq> []" by simp
  have c1: "invoke Id ''main'' 0 ?h0 = (Inr 0, ?h1)" by (simp add: run_defs)
  have c2: "chain [(Class, ''c'')] 0 ?h1 = (Inr 0, ?h2)" by (simp add: run_defs)
  from second_value_raises_duplicate_error [OF s v c1 c2, of "''other''"] s v c1 c2
  show ?thesis by blast
qed

text \<open>
  The claim as it is stated fails: after \<^verbatim>\<open>id('')\<close> a second \<^verbatim>\<open>id('main')\<close> on the
  same builder succeeds.
\<close>

theorem second_id_counterexample:
  "fst (factory Id [] heap_init) = Inr 0
   \<and> fst (invoke Id ''main'' 0 (snd (factory Id [] heap_init))) = Inr 0
   \<and> fst (invoke Id ''main'' 0 (snd (factory Id [] heap_init))) \<noteq> Inl DuplicateError"
  by (simp add: run_defs)

subsection \<open>Rendering\<close>

text \<open>
  C7. \<^verbatim>\<open>stringify\<close>, of a builder and of a combined selector, returns the store it was
  given, and a second call right after the first returns the same string.
\<close>

theorem stringify_pure_idempotent:
  "snd (stringify r h) = h \<and> stringify r (snd (stringify r h)) = stringify r h"
proof -
  have "snd (stringify r h) = h"
    by (cases r) (simp_all add: CssSelector_stringify_def CssCombine_stringify_def Let_def)
  then show ?thesis by simp
qed

theorem stringify_pure_idempotent_witness:
  "stringify (SelectorRef 0) (snd (chain [(Class, ''c'')] 0 (snd (factory Id ''main'' heap_init))))
     = (''#main.c'', snd (chain [(Class, ''c'')] 0 (snd (factory Id ''main'' heap_init))))
   \<and> stringify (SelectorRef 0)
        (snd (stringify (SelectorRef 0)
               (snd (chain [(Class, ''c'')] 0 (snd (factory Id ''main'' heap_init))))))
     = (''#main.c'', snd (chain [(Class, ''c'')] 0 (snd (factory Id ''main'' heap_init))))"
proof -
  let ?h = "snd (chain [(Class, ''c'')] 0 (snd (factory Id ''main'' heap_init)))"
  have "stringify (SelectorRef 0) ?h = (''#main.c'', ?h)" by (simp add: run_defs)
  with stringify_pure_idempotent [of "SelectorRef 0" ?h] show ?thesis by simp
qed

text \<open>
  C9, as amended. A singleton category that holds the empty string counts as not set:
  a further call for it never raises the duplicate error. A \<^verbatim>\<open>pseudoElement\<close> call
  then succeeds and overwrites the value; an \<^verbatim>\<open>element\<close> or \<^verbatim>\<open>id\<close> call succeeds
  and overwrites the value when no later category is populated, and raises the order
  error when one is. \<^verbatim>\<open>stringify\<close> renders a builder whose element, id or
  pseudo-element is the empty string as it renders the builder without that property.
\<close>

theorem empty_string_singleton_counts_as_absent:
  assumes "s = selectors h this"
  shows
    "(cssElement s = Some [] \<longrightarrow>
        CssSelector_element v this h =
          (if later_populated Element s then (Inl OrderError, h)
           else (Inr this, put this (s\<lparr>cssElement := Some v\<rparr>) h)))
     \<and> (cssId s = Some [] \<longrightarrow>
        CssSelector_id v this h =
          (if later_populated Id s then (Inl OrderError, h)
           else (Inr this, put this (s\<lparr>cssId := Some v\<rparr>) h)))
     \<and> (cssPseudoElement s = Some [] \<longrightarrow>
        CssSelector_pseudoElement v this h = (Inr this, put this (s\<lparr>cssPseudoElement := Some v\<rparr>) h))
     \<and> fst (CssSelector_stringify this (put this (s\<lparr>cssElement := Some []\<rparr>) h))
         = fst (CssSelector_stringify this (put this (s\<lparr>cssElement := None\<rparr>) h))
     \<and> fst (CssSelector_stringify this (put this (s\<lparr>cssId := Some []\<rparr>) h))
         = fst (CssSelector_stringify this (put this (s\<lparr>cssId := None\<rparr>) h))
     \<and> fst (CssSelector_stringify this (put this (s\<lparr>cssPseudoElement := Some []\<rparr>) h))
         = fst (CssSelector_stringify this (put this (s\<lparr>cssPseudoElement := None\<rparr>) h))"
proof (intro conjI impI)
  assume "cssElement s = Some []"
  with assms invoke_eq [of Element v this h]
  show "CssSelector_element v this h =
          (if later_populated Element s then (Inl OrderError, h)
           else (Inr this, put this (s\<lparr>cssElement := Some v\<rparr>) h))"
    by simp
next
  assume "cssId s = Some []"
  with assms invoke_eq [of Id v this h]
  show "CssSelector_id v this h =
          (if later_populated Id s then (Inl OrderError, h)
           else (Inr this, put this (s\<lparr>cssId := Some v\<rparr>) h))"
    by simp
next
  assume "cssPseudoElement s = Some []"
  with assms invoke_eq [of PseudoElement v this h]
  show "CssSelector_pseudoElement v this h =
          (Inr this, put this (s\<lparr>cssPseudoElement := Some v\<rparr>) h)"
    by simp
qed (simp_all add: CssSelector_stringify_def put_def Let_def)

theorem empty_string_singleton_counts_as_absent_witness:
  "cssId (selectors (snd (factory Id [] heap_init)) 0) = Some []
   \<and> \<not> later_populated Id (selectors (snd (factory Id [] heap_init)) 0)
   \<and> CssSelector_id ''main'' 0 (snd (factory Id [] heap_init))
       = (Inr 0, put 0 ((selectors (snd (factory Id [] heap_init)) 0)\<lparr>cssId := Some ''main''\<rparr>)
                   (snd (factory Id [] heap_init)))
   \<and> fst (CssSelector_stringify 0 (snd (factory Id [] heap_init))) = []"
proof -
  let ?h = "snd (factory Id [] heap_init)"
  have i: "cssId (selectors ?h 0) = Some []" by (simp add: run_defs)
  have l: "\<not> later_populated Id (selectors ?h 0)" by (simp add: run_defs)
  have r: "fst (CssSelector_stringify 0 ?h) = []" by (simp add: run_defs)
  from empty_string_singleton_counts_as_absent [OF refl, of ?h 0 "''main''"] i l r
  show ?thesis by simp
qed

text \<open>
  The claim as it is stated fails: after \<^verbatim>\<open>element('').class('a')\<close> the element is
  the empty string, and \<^verbatim>\<open>element('b')\<close> does not succeed: it raises the order error.
\<close>

theorem empty_element_then_class_counterexample:
  "cssElement (selectors (snd (chain [(Class, ''a'')] 0 (snd (factory Element [] heap_init)))) 0)
     = Some []
   \<and> fst (chain [(Class, ''a'')] 0 (snd (factory Element [] heap_init))) = Inr 0
   \<and> invoke Element ''b'' 0 (snd (chain [(Class, ''a'')] 0 (snd (factory Element [] heap_init))))
       = (Inl OrderError, snd (chain [(Class, ''a'')] 0 (snd (factory Element [] heap_init))))"
  by (simp add: run_defs)


subsection \<open>Frames: what a call leaves alone\<close>

lemma factory_eq: "factory m v h = invoke m v (next_addr h) (snd (CssSelector_new h))"
  by (cases m) (simp_all add: facade_defs CssSelector_new_def)

lemma invoke_frame:
  "combines (snd (invoke m v this h)) = combines h"
  "next_addr (snd (invoke m v this h)) = next_addr h"
  "a \<noteq> this \<Longrightarrow> selectors (snd (invoke m v this h)) a = selectors h a"
  by (simp_all add: invoke_eq put_def del: invoke.simps)

lemma chain_frame:
  "combines (snd (chain cs this h)) = combines h
   \<and> next_addr (snd (chain cs this h)) = next_addr h
   \<and> (a \<noteq> this \<longrightarrow> selectors (snd (chain cs this h)) a = selectors h a)"
proof (induction cs arbitrary: h)
  case Nil
  show ?case by simp
next
  case (Cons c cs)
  obtain m v where c: "c = (m, v)" by (cases c)
  obtain out h' where step: "invoke m v this h = (out, h')" by (cases "invoke m v this h")
  from step have h': "h' = snd (invoke m v this h)" by simp
  have frame: "combines h' = combines h" "next_addr h' = next_addr h"
    "a \<noteq> this \<longrightarrow> selectors h' a = selectors h a"
    unfolding h' by (simp_all add: invoke_frame del: invoke.simps)
  show ?case
  proof (cases out)
    case (Inl e)
    with c step frame show ?thesis by simp
  next
    case (Inr r)
    with step have "r = this" by (metis invoke_Inr(1))
    with c step Inr have "chain (c # cs) this h = chain cs this h'" by simp
    with Cons.IH [of h'] frame show ?thesis by simp
  qed
qed

lemma stringify_frame: "snd (stringify r h) = h"
  by (cases r) (simp_all add: CssSelector_stringify_def CssCombine_stringify_def Let_def)

lemma combine_eq:
  "cssSelectorBuilder_combine l c r h =
     (CombineRef (next_addr h),
      h\<lparr>combines :=
          (combines h)(next_addr h :=
             \<lparr>cssString = fst (stringify l h) @ '' '' @ c @ '' '' @ fst (stringify r h)\<rparr>),
        next_addr := Suc (next_addr h)\<rparr>)"
proof -
  obtain s1 where l: "stringify l h = (s1, h)"
    using stringify_frame [of l h] by (cases "stringify l h") simp
  obtain s2 where r: "stringify r h = (s2, h)"
    using stringify_frame [of r h] by (cases "stringify r h") simp
  from l r show ?thesis
    by (simp add: cssSelectorBuilder_combine_def CssCombine_new_def)
qed

lemma perform_frame:
  assumes "a < next_addr h"
  shows "combines (perform act h) a = combines h a \<and> next_addr h \<le> next_addr (perform act h)"
proof (cases act)
  case (Invoke m v b)
  then show ?thesis by (simp add: invoke_frame del: invoke.simps)
next
  case (Stringify r)
  then show ?thesis by (simp add: stringify_frame)
next
  case (Factory m v)
  then show ?thesis
    by (simp add: factory_eq invoke_frame CssSelector_new_def del: invoke.simps factory.simps)
next
  case (Combine l c r)
  with assms show ?thesis by (simp add: combine_eq)
qed

lemma performs_frame:
  "a < next_addr h \<Longrightarrow> combines (performs acts h) a = combines h a"
proof (induction acts arbitrary: h)
  case Nil
  show ?case by (simp add: performs_def)
next
  case (Cons act acts)
  from perform_frame [OF Cons.prems, of act]
  have keep: "combines (perform act h) a = combines h a" and "a < next_addr (perform act h)"
    using Cons.prems by auto
  from Cons.IH [OF this(2)] keep show ?case by (simp add: performs_def)
qed


lemma combine_stringify:
  assumes "cssSelectorBuilder_combine l c r h = (res, h1)"
  shows "stringify res h1 = (fst (stringify l h) @ '' '' @ c @ '' '' @ fst (stringify r h), h1)"
  using assms by (auto simp: combine_eq CssCombine_stringify_def)

lemma combine_allocates:
  assumes "cssSelectorBuilder_combine l c r h = (res, h1)"
  shows "res = CombineRef (next_addr h)" and "next_addr h < next_addr h1"
  using assms by (auto simp: combine_eq)

lemma factory_result:
  "factory m v h =
     (Inr (next_addr h),
      h\<lparr>selectors := (selectors h)(next_addr h := only m v), next_addr := Suc (next_addr h)\<rparr>)"
  by (cases m)
     (simp_all add: facade_defs method_defs CssSelector_new_def CssSelector_init_def Let_def)

subsection \<open>Combined selectors\<close>

text \<open>
  C5. \<^verbatim>\<open>combine\<close> returns an object whose \<^verbatim>\<open>stringify\<close> gives the left operand's
  string, a space, the combinator, a space and the right operand's string, for every
  combinator token (the four of the specification among them) and for operands of either
  class. The descendant combinator, itself a space, gives three spaces. A combined
  selector used as the right or the left operand of another \<^verbatim>\<open>combine\<close> gives one
  flat string joined in the same way.
\<close>

theorem combine_joins_with_single_spaces:
  assumes "cssSelectorBuilder_combine l c r h = (res, h1)"
  shows
    "fst (stringify res h1) = fst (stringify l h) @ '' '' @ c @ '' '' @ fst (stringify r h)
     \<and> (c = '' '' \<longrightarrow>
          fst (stringify res h1) = fst (stringify l h) @ ''   '' @ fst (stringify r h))
     \<and> (cssSelectorBuilder_combine x d res h1 = (res2, h2) \<longrightarrow>
          fst (stringify res2 h2) =
            fst (stringify x h1) @ '' '' @ d @ '' ''
              @ fst (stringify l h) @ '' '' @ c @ '' '' @ fst (stringify r h))
     \<and> (cssSelectorBuilder_combine res d x h1 = (res3, h3) \<longrightarrow>
          fst (stringify res3 h3) =
            fst (stringify l h) @ '' '' @ c @ '' '' @ fst (stringify r h)
              @ '' '' @ d @ '' '' @ fst (stringify x h1))"
proof -
  have one: "fst (stringify res h1) = fst (stringify l h) @ '' '' @ c @ '' '' @ fst (stringify r h)"
    by (simp add: combine_stringify [OF assms])
  have right: "fst (stringify res2 h2) =
      fst (stringify x h1) @ '' '' @ d @ '' ''
        @ fst (stringify l h) @ '' '' @ c @ '' '' @ fst (stringify r h)"
    if "cssSelectorBuilder_combine x d res h1 = (res2, h2)"
    by (simp add: combine_stringify [OF that] one)
  have left: "fst (stringify res3 h3) =
      fst (stringify l h) @ '' '' @ c @ '' '' @ fst (stringify r h)
        @ '' '' @ d @ '' '' @ fst (stringify x h1)"
    if "cssSelectorBuilder_combine res d x h1 = (res3, h3)"
    by (simp add: combine_stringify [OF that] one)
  from one right left show ?thesis by simp
qed

theorem combine_joins_with_single_spaces_witness:
  "cssSelectorBuilder_combine (SelectorRef 0) '' '' (SelectorRef 1)
       (snd (factory Element ''td'' (snd (factory Element ''tr'' heap_init))))
     = (CombineRef 2,
        snd (cssSelectorBuilder_combine (SelectorRef 0) '' '' (SelectorRef 1)
               (snd (factory Element ''td'' (snd (factory Element ''tr'' heap_init))))))
   \<and> fst (stringify (CombineRef 2)
            (snd (cssSelectorBuilder_combine (SelectorRef 0) '' '' (SelectorRef 1)
                    (snd (factory Element ''td'' (snd (factory Element ''tr'' heap_init)))))))
       = ''tr   td''
   \<and> fst (stringify (CombineRef 3)
            (snd (cssSelectorBuilder_combine (SelectorRef 1) ''~'' (CombineRef 2)
                    (snd (cssSelectorBuilder_combine (SelectorRef 0) '' '' (SelectorRef 1)
                            (snd (factory Element ''td'' (snd (factory Element ''tr'' heap_init)))))))))
       = ''td ~ tr   td''
   \<and> fst (stringify (CombineRef 3)
            (snd (cssSelectorBuilder_combine (CombineRef 2) ''~'' (SelectorRef 1)
                    (snd (cssSelectorBuilder_combine (SelectorRef 0) '' '' (SelectorRef 1)
                            (snd (factory Element ''td'' (snd (factory Element ''tr'' heap_init)))))))))
       = ''tr   td ~ td''"
proof -
  let ?h = "snd (factory Element ''td'' (snd (factory Element ''tr'' heap_init)))"
  let ?h1 = "snd (cssSelectorBuilder_combine (SelectorRef 0) '' '' (SelectorRef 1) ?h)"
  let ?h2 = "snd (cssSelectorBuilder_combine (SelectorRef 1) ''~'' (CombineRef 2) ?h1)"
  let ?h3 = "snd (cssSelectorBuilder_combine (CombineRef 2) ''~'' (SelectorRef 1) ?h1)"
  have c1: "cssSelectorBuilder_combine (SelectorRef 0) '' '' (SelectorRef 1) ?h = (CombineRef 2, ?h1)"
    by (simp add: run_defs)
  have c2: "cssSelectorBuilder_combine (SelectorRef 1) ''~'' (CombineRef 2) ?h1 = (CombineRef 3, ?h2)"
    by (simp add: run_defs)
  have c3: "cssSelectorBuilder_combine (CombineRef 2) ''~'' (SelectorRef 1) ?h1 = (CombineRef 3, ?h3)"
    by (simp add: run_defs)
  have l: "fst (stringify (SelectorRef 0) ?h) = ''tr''" by (simp add: run_defs)
  have r: "fst (stringify (SelectorRef 1) ?h) = ''td''" by (simp add: run_defs)
  have x: "fst (stringify (SelectorRef 1) ?h1) = ''td''" by (simp add: run_defs)
  from combine_joins_with_single_spaces
         [OF c1, where x = "SelectorRef 1" and d = "''~''" and ?res2.0 = "CombineRef 3"
            and ?h2.0 = ?h2 and ?res3.0 = "CombineRef 3" and ?h3.0 = ?h3]
  have "fst (stringify (CombineRef 2) ?h1) = ''tr   td''
        \<and> fst (stringify (CombineRef 3) ?h2) = ''td ~ tr   td''
        \<and> fst (stringify (CombineRef 3) ?h3) = ''tr   td ~ td''"
    using c2 c3 l r x by simp
  with c1 show ?thesis by blast
qed

text \<open>
  C8. The string of a combined selector is fixed when \<^verbatim>\<open>combine\<close> runs, from the
  operands as they are then. Whatever the client does afterwards, method calls on the
  operands and on any other builder, further factory and \<^verbatim>\<open>combine\<close> calls,
  \<^verbatim>\<open>stringify\<close> calls, every \<^verbatim>\<open>stringify\<close> of the result gives that same string.
\<close>

theorem combine_result_is_fixed:
  assumes "cssSelectorBuilder_combine l c r h = (res, h1)"
  shows "fst (stringify res (performs acts h1))
           = fst (stringify l h) @ '' '' @ c @ '' '' @ fst (stringify r h)
         \<and> fst (stringify res (performs acts h1)) = fst (stringify res h1)"
proof -
  from combine_allocates [OF assms]
  have res: "res = CombineRef (next_addr h)" and fresh: "next_addr h < next_addr h1"
    by blast+
  from performs_frame [OF fresh]
  have "combines (performs acts h1) (next_addr h) = combines h1 (next_addr h)" .
  with res have "fst (stringify res (performs acts h1)) = fst (stringify res h1)"
    by (simp add: CssCombine_stringify_def)
  with combine_stringify [OF assms] show ?thesis by simp
qed

theorem combine_result_is_fixed_witness:
  "cssSelectorBuilder_combine (SelectorRef 0) ''>'' (SelectorRef 1)
       (snd (factory Element ''p'' (snd (factory Element ''div'' heap_init))))
     = (CombineRef 2,
        snd (cssSelectorBuilder_combine (SelectorRef 0) ''>'' (SelectorRef 1)
               (snd (factory Element ''p'' (snd (factory Element ''div'' heap_init))))))
   \<and> fst (stringify (CombineRef 2)
            (performs [Invoke Class ''x'' 0, Invoke Id ''y'' 1, Stringify (CombineRef 2),
                       Combine (CombineRef 2) ''+'' (SelectorRef 0), Factory Id ''z'']
               (snd (cssSelectorBuilder_combine (SelectorRef 0) ''>'' (SelectorRef 1)
                       (snd (factory Element ''p'' (snd (factory Element ''div'' heap_init))))))))
       = ''div > p''
   \<and> fst (stringify (SelectorRef 0)
            (performs [Invoke Class ''x'' 0, Invoke Id ''y'' 1, Stringify (CombineRef 2),
                       Combine (CombineRef 2) ''+'' (SelectorRef 0), Factory Id ''z'']
               (snd (cssSelectorBuilder_combine (SelectorRef 0) ''>'' (SelectorRef 1)
                       (snd (factory Element ''p'' (snd (factory Element ''div'' heap_init))))))))
       = ''div.x''"
proof -
  let ?h = "snd (factory Element ''p'' (snd (factory Element ''div'' heap_init)))"
  let ?h1 = "snd (cssSelectorBuilder_combine (SelectorRef 0) ''>'' (SelectorRef 1) ?h)"
  let ?acts = "[Invoke Class ''x'' 0, Invoke Id ''y'' 1, Stringify (CombineRef 2),
                Combine (CombineRef 2) ''+'' (SelectorRef 0), Factory Id ''z'']"
  have c1: "cssSelectorBuilder_combine (SelectorRef 0) ''>'' (SelectorRef 1) ?h = (CombineRef 2, ?h1)"
    by (simp add: run_defs)
  have l: "fst (stringify (SelectorRef 0) ?h) = ''div''" by (simp add: run_defs)
  have r: "fst (stringify (SelectorRef 1) ?h) = ''p''" by (simp add: run_defs)
  have o: "fst (stringify (SelectorRef 0) (performs ?acts ?h1)) = ''div.x''"
    by (simp add: run_defs performs_def)
  from combine_result_is_fixed [OF c1, of ?acts] l r
  have "fst (stringify (CombineRef 2) (performs ?acts ?h1)) = ''div > p''" by simp
  with c1 o show ?thesis by blast
qed


subsection \<open>The factories of the facade\<close>

text \<open>
  C6. Each factory of the facade returns, without raising, a builder at an address no
  constructor has handed out before; the builder holds the one fragment and nothing else,
  and no other object of the store changes. The builders of two factory calls are
  different objects, and a chain of calls on either of them, successful or not, leaves
  the other as it was.
\<close>

theorem factory_returns_fresh_builder:
  "fst (factory m v h) = Inr (next_addr h)
   \<and> selectors (snd (factory m v h)) (next_addr h) = only m v
   \<and> (\<forall>a. a \<noteq> next_addr h \<longrightarrow> selectors (snd (factory m v h)) a = selectors h a)
   \<and> combines (snd (factory m v h)) = combines h
   \<and> next_addr (snd (factory m v h)) = Suc (next_addr h)
   \<and> (factory m1 v1 h = (Inr a1, h1) \<and> factory m2 v2 h1 = (Inr a2, h2) \<longrightarrow>
        a1 \<noteq> a2
        \<and> selectors (snd (chain cs a1 h2)) a2 = selectors h2 a2
        \<and> selectors (snd (chain cs a2 h2)) a1 = selectors h2 a1)"
proof -
  have indep: "a1 \<noteq> a2 \<and> selectors (snd (chain cs a1 h2)) a2 = selectors h2 a2
               \<and> selectors (snd (chain cs a2 h2)) a1 = selectors h2 a1"
    if "factory m1 v1 h = (Inr a1, h1) \<and> factory m2 v2 h1 = (Inr a2, h2)"
  proof -
    from that have "a1 = next_addr h" and "next_addr h1 = Suc (next_addr h)"
      and "a2 = next_addr h1"
      by (auto simp: factory_result simp del: factory.simps)
    then have "a1 \<noteq> a2" by simp
    with chain_frame [of cs a1 h2 a2] chain_frame [of cs a2 h2 a1] show ?thesis by simp
  qed
  have single: "fst (factory m v h) = Inr (next_addr h)
      \<and> selectors (snd (factory m v h)) (next_addr h) = only m v
      \<and> (\<forall>a. a \<noteq> next_addr h \<longrightarrow> selectors (snd (factory m v h)) a = selectors h a)
      \<and> combines (snd (factory m v h)) = combines h
      \<and> next_addr (snd (factory m v h)) = Suc (next_addr h)"
    by (simp add: factory_result del: factory.simps)
  from single indep show ?thesis by blast
qed

theorem factory_returns_fresh_builder_witness:
  "factory Id ''main'' heap_init = (Inr 0, snd (factory Id ''main'' heap_init))
   \<and> factory Element ''div'' (snd (factory Id ''main'' heap_init))
       = (Inr 1, snd (factory Element ''div'' (snd (factory Id ''main'' heap_init))))
   \<and> selectors (snd (factory Id ''main'' heap_init)) 0 = only Id ''main''
   \<and> selectors (snd (chain [(Class, ''c''), (Id, ''again'')] 0
                       (snd (factory Element ''div'' (snd (factory Id ''main'' heap_init)))))) 1
       = only Element ''div''
   \<and> selectors (snd (chain [(Class, ''c''), (Id, ''again'')] 1
                       (snd (factory Element ''div'' (snd (factory Id ''main'' heap_init)))))) 0
       = only Id ''main''"
proof -
  let ?h1 = "snd (factory Id ''main'' heap_init)"
  let ?h2 = "snd (factory Element ''div'' ?h1)"
  let ?cs = "[(Class, ''c''), (Id, ''again'')]"
  have f1: "factory Id ''main'' heap_init = (Inr 0, ?h1)" by (simp add: run_defs)
  have f2: "factory Element ''div'' ?h1 = (Inr 1, ?h2)" by (simp add: run_defs)
  have s0: "selectors ?h2 0 = only Id ''main''" by (simp add: run_defs)
  have s1: "selectors ?h2 1 = only Element ''div''" by (simp add: run_defs)
  have n: "next_addr heap_init = 0" by (simp add: heap_init_def)
  from factory_returns_fresh_builder
         [where m = Id and v = "''main''" and h = heap_init and ?m1.0 = Id and ?v1.0 = "''main''"
            and ?a1.0 = 0 and ?h1.0 = ?h1 and ?m2.0 = Element and ?v2.0 = "''div''"
            and ?a2.0 = 1 and ?h2.0 = ?h2 and cs = ?cs]
  have "selectors ?h1 0 = only Id ''main''
        \<and> selectors (snd (chain ?cs 0 ?h2)) 1 = selectors ?h2 1
        \<and> selectors (snd (chain ?cs 1 ?h2)) 0 = selectors ?h2 0"
    using f1 f2 n by simp
  with f1 f2 s0 s1 show ?thesis by simp
qed


subsection \<open>Rendering a builder from the calls made on it\<close>

lemma foldl_append_concat: "foldl (\<lambda>acc e. acc @ f e) acc xs = acc @ concat (map f xs)"
  by (induction xs arbitrary: acc) simp_all

lemma stringify_parts:
  "CssSelector_stringify this h =
     (part Element (selectors h this) @ part Id (selectors h this)
        @ part Class (selectors h this) @ part Attr (selectors h this)
        @ part PseudoClass (selectors h this) @ part PseudoElement (selectors h this), h)"
proof -
  have dot: "foldl (\<lambda>string e. string @ ''.'' @ e) acc xs
               = acc @ concat (map (\<lambda>e. ''.'' @ e) xs)" for acc xs
    by (rule foldl_append_concat)
  have bracket: "foldl (\<lambda>string e. string @ ''['' @ e @ '']'') acc xs
               = acc @ concat (map (\<lambda>e. ''['' @ e @ '']'') xs)" for acc xs
    by (rule foldl_append_concat)
  have colon: "foldl (\<lambda>string e. string @ '':'' @ e) acc xs
               = acc @ concat (map (\<lambda>e. '':'' @ e) xs)" for acc xs
    by (rule foldl_append_concat)
  show ?thesis
    unfolding CssSelector_stringify_def Let_def dot bracket colon by simp
qed

lemma fragments_of_Cons:
  "fragments_of k (given (c # cs)) = fragments_of k (given [c]) @ fragments_of k (given cs)"
  by (simp add: fragments_of_def given_def)

lemma part_store:
  assumes "\<not> (singleton m \<and> populated m s)"
  shows "part k (store m v s) = part k s @ fragments_of k (given [(m, v)])"
  using assms by (cases m; cases k) (simp_all add: fragments_of_def given_def)

lemma part_invoke:
  assumes "invoke m v this h = (Inr r, h1)"
  shows "part k (selectors h1 r) = part k (selectors h this) @ fragments_of k (given [(m, v)])"
proof -
  from invoke_Inr [OF assms]
  have "r = this" and "h1 = put this (store m v (selectors h this)) h"
    and "\<not> (singleton m \<and> populated m (selectors h this))"
    by blast+
  then show ?thesis by (simp add: put_def part_store)
qed

lemma part_chain:
  "chain cs this h = (Inr r, h1)
   \<Longrightarrow> part k (selectors h1 r) = part k (selectors h this) @ fragments_of k (given cs)"
proof (induction cs arbitrary: this h)
  case Nil
  then show ?case by (simp add: fragments_of_def given_def)
next
  case (Cons c cs)
  obtain m v where c: "c = (m, v)" by (cases c)
  obtain out h' where step: "invoke m v this h = (out, h')" by (cases "invoke m v this h")
  show ?case
  proof (cases out)
    case (Inl e)
    with Cons.prems c step show ?thesis by simp
  next
    case (Inr a)
    with step have one: "part k (selectors h' a)
        = part k (selectors h this) @ fragments_of k (given [(m, v)])"
      by (simp add: part_invoke)
    from Cons.prems c step Inr have "chain cs a h' = (Inr r, h1)" by simp
    then have "part k (selectors h1 r) = part k (selectors h' a) @ fragments_of k (given cs)"
      by (rule Cons.IH)
    with one c show ?thesis
      by (simp add: fragments_of_Cons [of k "(m, v)" cs])
  qed
qed

lemma part_init: "part k CssSelector_init = []"
  by (cases k) (simp_all add: CssSelector_init_def)

lemma stringify_new_chain:
  assumes "chain cs (next_addr h) (snd (CssSelector_new h)) = (Inr r, h1)"
  shows "CssSelector_stringify r h1 = (spec_render (given cs), h1)"
proof -
  have "selectors (snd (CssSelector_new h)) (next_addr h) = CssSelector_init"
    by (simp add: CssSelector_new_def)
  with part_chain [OF assms] have "part k (selectors h1 r) = fragments_of k (given cs)" for k
    by (simp add: part_init)
  then show ?thesis by (simp add: stringify_parts spec_render_def)
qed

text \<open>
  C1, as amended. A builder comes from a factory call followed by a chain of calls. When
  all of them succeed, \<^verbatim>\<open>stringify\<close> gives the fragments of the calls, category by
  category in the fixed order and in call order within a category, each behind its
  marker, where a call that gave the element, the id or the pseudo-element the empty
  string counts as not made: its category is left out, marker included. The store is
  returned as it was. Success is enough: the order of the calls need not be assumed.
\<close>

theorem stringify_renders_categories_in_order:
  assumes "factory m v h = (Inr a, h0)" and "chain cs a h0 = (Inr r, h1)"
  shows "stringify (SelectorRef r) h1 = (spec_render (given ((m, v) # cs)), h1)"
proof -
  from assms(1) have a: "a = next_addr h"
    by (simp add: factory_result del: factory.simps)
  from assms(1) have "invoke m v (next_addr h) (snd (CssSelector_new h)) = (Inr a, h0)"
    by (simp add: factory_eq)
  with assms(2) a
  have "chain ((m, v) # cs) (next_addr h) (snd (CssSelector_new h)) = (Inr r, h1)"
    by simp
  from stringify_new_chain [OF this] show ?thesis by simp
qed

theorem stringify_renders_categories_in_order_witness:
  "factory Element ''a'' heap_init = (Inr 0, snd (factory Element ''a'' heap_init))
   \<and> chain [(Id, []), (Id, ''main''), (Class, ''c''), (Class, ''d''), (Attr, ''href''),
            (PseudoClass, ''focus''), (PseudoElement, ''before'')] 0
        (snd (factory Element ''a'' heap_init))
       = (Inr 0,
          snd (chain [(Id, []), (Id, ''main''), (Class, ''c''), (Class, ''d''), (Attr, ''href''),
                      (PseudoClass, ''focus''), (PseudoElement, ''before'')] 0
                 (snd (factory Element ''a'' heap_init))))
   \<and> fst (stringify (SelectorRef 0)
            (snd (chain [(Id, []), (Id, ''main''), (Class, ''c''), (Class, ''d''), (Attr, ''href''),
                         (PseudoClass, ''focus''), (PseudoElement, ''before'')] 0
                    (snd (factory Element ''a'' heap_init)))))
       = ''a#main.c.d[href]:focus::before''"
proof -
  let ?h0 = "snd (factory Element ''a'' heap_init)"
  let ?cs = "[(Id, []), (Id, ''main''), (Class, ''c''), (Class, ''d''), (Attr, ''href''),
              (PseudoClass, ''focus''), (PseudoElement, ''before'')]"
  let ?h1 = "snd (chain ?cs 0 ?h0)"
  have f: "factory Element ''a'' heap_init = (Inr 0, ?h0)" by (simp add: run_defs)
  have c: "chain ?cs 0 ?h0 = (Inr 0, ?h1)" by (simp add: run_defs)
  have s: "spec_render (given ((Element, ''a'') # ?cs)) = ''a#main.c.d[href]:focus::before''"
    by (simp add: spec_render_def given_def fragments_of_def)
  from stringify_renders_categories_in_order [OF f c] s
  have "fst (stringify (SelectorRef 0) ?h1) = ''a#main.c.d[href]:focus::before''" by simp
  with f c show ?thesis by blast
qed

text \<open>
  The claim as it is stated fails: the one call \<^verbatim>\<open>id('')\<close> succeeds and respects the
  order, the concatenation of the claim is the marker \<^verbatim>\<open>#\<close> with the empty id behind
  it, and \<^verbatim>\<open>stringify\<close> gives the empty string.
\<close>

theorem empty_id_counterexample:
  "fst (factory Id [] heap_init) = Inr 0
   \<and> in_category_order [(Id, [])]
   \<and> spec_render [(Id, [])] = ''#''
   \<and> fst (stringify (SelectorRef 0) (snd (factory Id [] heap_init))) = []
   \<and> fst (stringify (SelectorRef 0) (snd (factory Id [] heap_init))) \<noteq> spec_render [(Id, [])]"
  by (simp add: run_defs spec_render_def fragments_of_def in_category_order_def)

end
